theory Spec2Isabelle
  imports Main "HOL-Library.List_Lexorder" "HOL-Library.Sublist" "HOL-Library.Multiset"
begin

section \<open>Plugin Viewer: the data model\<close>

text \<open>
  The program under study is \<^verbatim>\<open>src/plugin_viewer.py\<close>, a terminal browser over a list of
  plugin records read from \<^verbatim>\<open>Plugins.json\<close>.

  A Python \<^verbatim>\<open>str\<close> is a sequence of Unicode code points, and is modelled as the list of
  these numbers: \<^verbatim>\<open>List_Lexorder\<close> gives the order Python compares strings by, and the
  contiguous-sublist test is Python's \<^verbatim>\<open>in\<close>. \<open>U\<close> turns a literal of the program text
  into such a list.
\<close>

type_synonym ustring = "nat list"

definition U :: "string \<Rightarrow> ustring" where
  "U s = map of_char s"

text \<open>
  A value stored in a record is whatever \<^verbatim>\<open>json.load\<close> produced: a string, or something
  else (number, boolean, null, list, object). A non-string is kept as \<open>JOther r\<close>, where
  \<open>r\<close> is the text \<^verbatim>\<open>str(value)\<close> gives for it.
\<close>

datatype jvalue = JStr ustring | JOther ustring

type_synonym plugin = "ustring \<rightharpoonup> jvalue"

text \<open>
  An item of the loaded dataset: a JSON object, or anything else. Iterating over a JSON
  object at the top level yields its keys, which are strings, so that an object with \<open>n\<close>
  keys behaves as a list of \<open>n\<close> items that are not objects.
\<close>

datatype item = Obj plugin | NonObj

datatype error = TypeError | AttributeError

text \<open>\<^verbatim>\<open>plugin.get(k, "")\<close>\<close>

definition dict_get :: "plugin \<Rightarrow> ustring \<Rightarrow> jvalue" where
  "dict_get p k = (case p k of None \<Rightarrow> JStr [] | Some v \<Rightarrow> v)"

text \<open>\<^verbatim>\<open>str(value)\<close>\<close>

fun str :: "jvalue \<Rightarrow> ustring" where
  "str (JStr s) = s"
| "str (JOther r) = r"

fun is_str :: "jvalue \<Rightarrow> bool" where
  "is_str (JStr s) = True"
| "is_str (JOther r) = False"

subsection \<open>String primitives\<close>

text \<open>
  \<^verbatim>\<open>str.lower\<close> is defined by the case tables of Unicode, which are no part of the
  program. Every definition below that lowercases takes the function as its first argument,
  \<open>lower\<close>, and the properties are proved for every such function. On text of the ASCII
  range \<^verbatim>\<open>str.lower\<close> is \<open>ascii_lower\<close>, which the sample sessions use.
\<close>

definition ascii_lower :: "ustring \<Rightarrow> ustring" where
  "ascii_lower s = map (\<lambda>c. if 65 \<le> c \<and> c \<le> 90 then c + 32 else c) s"

text \<open>
  The code points that \<^verbatim>\<open>str.strip()\<close> removes: 9 to 13, 28 to 32, U+0085, U+00A0,
  U+1680, U+2000 to U+200A, U+2028, U+2029, U+202F, U+205F and U+3000.
\<close>

definition isspace :: "nat \<Rightarrow> bool" where
  "isspace c =
     ((9 \<le> c \<and> c \<le> 13) \<or> (28 \<le> c \<and> c \<le> 32) \<or> c = 133 \<or> c = 160 \<or> c = 5760
      \<or> (8192 \<le> c \<and> c \<le> 8202) \<or> c = 8232 \<or> c = 8233 \<or> c = 8239 \<or> c = 8287
      \<or> c = 12288)"

definition strip :: "ustring \<Rightarrow> ustring" where
  "strip s = rev (dropWhile isspace (rev (dropWhile isspace s)))"

text \<open>\<^verbatim>\<open>s.replace(" ", "")\<close>\<close>

definition replace_space :: "ustring \<Rightarrow> ustring" where
  "replace_space s = filter (\<lambda>c. c \<noteq> 32) s"

fun intercalate :: "ustring \<Rightarrow> ustring list \<Rightarrow> ustring" where
  "intercalate sep [] = []"
| "intercalate sep [x] = x"
| "intercalate sep (x # y # ys) = x @ sep @ intercalate sep (y # ys)"

text \<open>\<^verbatim>\<open>sep.join(items)\<close> raises \<^verbatim>\<open>TypeError\<close> when an item is not a string.\<close>

definition join :: "ustring \<Rightarrow> jvalue list \<Rightarrow> error + ustring" where
  "join sep vs =
     (if list_all is_str vs then Inr (intercalate sep (map str vs)) else Inl TypeError)"

text \<open>Decimal text of a length, as the f-strings print it.\<close>

fun show_nat :: "nat \<Rightarrow> ustring" where
  "show_nat n =
     (if n < 10 then [48 + n] else show_nat (n div 10) @ [48 + n mod 10])"

declare show_nat.simps [simp del]

text \<open>
  \<^verbatim>\<open>xs.sort(key=key, reverse=reverse)\<close>. Python's sort is stable, and stays stable under
  \<^verbatim>\<open>reverse=True\<close>: the list is reversed, sorted ascending, and reversed again, so that
  elements with equal keys keep their original relative order in the descending result.
\<close>

definition list_sort :: "('a \<Rightarrow> 'k::linorder) \<Rightarrow> bool \<Rightarrow> 'a list \<Rightarrow> 'a list" where
  "list_sort key reverse xs =
     (if reverse then rev (sort_key key (rev xs)) else sort_key key xs)"

section \<open>The application object\<close>

text \<open>
  The attributes set in \<^verbatim>\<open>__init__\<close>, followed by the widgets the methods write to: the
  title, the value of the search input, the columns and rows of the table, the text of the
  status line, and the notifications raised so far (message and severity).
  The attribute \<^verbatim>\<open>sort_key\<close> is named \<open>sort_key_attr\<close> here.

  \<^verbatim>\<open>list.sort\<close> and \<^verbatim>\<open>list.reverse\<close> work in place, so it matters whether the two list
  attributes refer to one list object. \<open>filtered_is_plugins\<close> records that:
  it is what \<^verbatim>\<open>self.filtered_plugins is self.plugins\<close> would give. An assignment of a new
  list (\<^verbatim>\<open>[]\<close>, \<^verbatim>\<open>self.plugins.copy()\<close>) clears it.

  The value of the search input is a reactive attribute of the widget: an assignment that
  changes it posts an \<^verbatim>\<open>Input.Changed\<close> message carrying the new value, which is delivered
  to \<^verbatim>\<open>on_input_changed\<close> after the running handler has returned. \<open>posted\<close> holds the
  values of the messages posted and not yet delivered.
\<close>

record app =
  plugins :: "plugin list"
  filtered_plugins :: "plugin list"
  filtered_is_plugins :: bool
  sort_key_attr :: ustring
  sort_reverse :: bool
  search_query :: ustring
  title :: ustring
  search_input_value :: ustring
  posted :: "ustring list"
  table_columns :: "(ustring \<times> ustring) list"
  table_rows :: "jvalue list list"
  stats :: ustring
  notifications :: "(ustring \<times> ustring) list"

definition init_app :: app where
  "init_app = \<lparr> plugins = [], filtered_plugins = [], filtered_is_plugins = False,
     sort_key_attr = U ''name'', sort_reverse = False, search_query = [],
     title = U ''PluginViewer'', search_input_value = [], posted = [],
     table_columns = [], table_rows = [], stats = U ''Showing 0 of 0 plugins'',
     notifications = [] \<rparr>"

text \<open>
  What the \<^verbatim>\<open>try\<close> block of \<^verbatim>\<open>load_data\<close> meets. \<open>LoadFailed e\<close>: an exception with
  the message \<open>e\<close>, raised by \<^verbatim>\<open>open\<close>, by \<^verbatim>\<open>json.load\<close>, or by \<^verbatim>\<open>.copy()\<close> when the
  file holds a JSON string, number, boolean or null. \<open>Loaded items\<close>: the file holds a JSON
  array or object and the block completes; \<open>items\<close> is what iterating over the loaded
  value yields.
\<close>

datatype load_result = LoadFailed ustring | Loaded "item list"

text \<open>
  The two branches of \<^verbatim>\<open>load_data\<close>: the body of \<^verbatim>\<open>try\<close>, here on a dataset whose items
  are all objects, and the body of \<^verbatim>\<open>except\<close>.
\<close>

definition load_data :: "ustring + plugin list \<Rightarrow> app \<Rightarrow> app" where
  "load_data r s =
     (case r of
        Inr ps \<Rightarrow>
          s\<lparr> plugins := ps, filtered_plugins := ps, filtered_is_plugins := False,
             title := U ''Plugin Viewer - '' @ show_nat (length ps) @ U '' plugins'' \<rparr>
      | Inl e \<Rightarrow>
          s\<lparr> plugins := [], filtered_plugins := [], filtered_is_plugins := False,
             title := U ''Plugin Viewer - Error loading data'',
             notifications :=
               notifications s @ [(U ''Error loading plugins: '' @ e, U ''error'')] \<rparr>)"

definition columns :: "(ustring \<times> ustring) list" where
  "columns =
     [(U ''Plugin Type'', U ''type''), (U ''Name'', U ''name''),
      (U ''Manufacturer'', U ''manufacturer''), (U ''Description'', U ''description''),
      (U ''Investigate'', U ''investigate'')]"

definition setup_table :: "app \<Rightarrow> app" where
  "setup_table s = s\<lparr> table_columns := foldl (\<lambda>cs c. cs @ [c]) (table_columns s) columns \<rparr>"

definition row_of :: "plugin \<Rightarrow> jvalue list" where
  "row_of p =
     [dict_get p (U ''Plugin Type''), dict_get p (U ''Name''), dict_get p (U ''Manufacturer''),
      dict_get p (U ''Description''), dict_get p (U ''Invsestigate'')]"

definition populate_table :: "app \<Rightarrow> app" where
  "populate_table s =
     s\<lparr> table_rows := foldl (\<lambda>rows p. rows @ [row_of p]) [] (filtered_plugins s),
        stats := U ''Showing '' @ show_nat (length (filtered_plugins s)) @ U '' of ''
                 @ show_nat (length (plugins s)) @ U '' plugins'' \<rparr>"

text \<open>
  The objects of a dataset, when all its items are objects. \<^verbatim>\<open>populate_table\<close> calls
  \<^verbatim>\<open>plugin.get\<close> on every item it iterates over; on an item that is not an object this
  raises \<^verbatim>\<open>AttributeError\<close>.
\<close>

fun the_objects :: "item list \<Rightarrow> plugin list option" where
  "the_objects [] = Some []"
| "the_objects (Obj p # xs) = map_option ((#) p) (the_objects xs)"
| "the_objects (NonObj # xs) = None"

text \<open>
  \<^verbatim>\<open>on_mount\<close>: \<^verbatim>\<open>load_data\<close>, \<^verbatim>\<open>setup_table\<close>, \<^verbatim>\<open>populate_table\<close>. After a load that
  completed, the first \<^verbatim>\<open>populate_table\<close> goes through the whole dataset, and nothing
  catches the \<^verbatim>\<open>AttributeError\<close> of an item that is not an object: mounting fails then, and
  a state that exists after mounting holds objects only.
\<close>

definition on_mount :: "load_result \<Rightarrow> app \<Rightarrow> error + app" where
  "on_mount r s =
     (case r of
        LoadFailed e \<Rightarrow> Inr (populate_table (setup_table (load_data (Inl e) s)))
      | Loaded items \<Rightarrow>
          (case the_objects items of
             None \<Rightarrow> Inl AttributeError
           | Some ps \<Rightarrow> Inr (populate_table (setup_table (load_data (Inr ps) s)))))"

subsection \<open>Sorting\<close>

definition key_map :: "(ustring \<times> ustring) list" where
  "key_map =
     [(U ''type'', U ''Plugin Type''), (U ''name'', U ''Name''),
      (U ''manufacturer'', U ''Manufacturer''), (U ''description'', U ''Description''),
      (U ''investigate'', U ''Invsestigate'')]"

text \<open>\<^verbatim>\<open>key_map.get(k, "Name")\<close>\<close>

definition key_map_get :: "ustring \<Rightarrow> ustring" where
  "key_map_get k = (case map_of key_map k of None \<Rightarrow> U ''Name'' | Some f \<Rightarrow> f)"

definition get_sort_value :: "(ustring \<Rightarrow> ustring) \<Rightarrow> ustring \<Rightarrow> plugin \<Rightarrow> ustring" where
  "get_sort_value lower sk p = lower (str (dict_get p (key_map_get sk)))"

text \<open>
  An in-place change of the list object behind \<^verbatim>\<open>self.filtered_plugins\<close>: seen through
  \<^verbatim>\<open>self.plugins\<close> as well when both attributes refer to that object.
\<close>

definition set_filtered_in_place :: "plugin list \<Rightarrow> app \<Rightarrow> app" where
  "set_filtered_in_place xs s =
     (if filtered_is_plugins s then s\<lparr> filtered_plugins := xs, plugins := xs \<rparr>
      else s\<lparr> filtered_plugins := xs \<rparr>)"

definition sort_plugins :: "(ustring \<Rightarrow> ustring) \<Rightarrow> app \<Rightarrow> app" where
  "sort_plugins lower s =
     (if filtered_plugins s = [] then s
      else
        let s1 = set_filtered_in_place
                   (list_sort (get_sort_value lower (sort_key_attr s)) (sort_reverse s)
                      (filtered_plugins s)) s;
            s2 = (if sort_reverse s1 then set_filtered_in_place (rev (filtered_plugins s1)) s1
                  else s1)
        in populate_table s2)"

definition on_data_table_column_selected ::
    "(ustring \<Rightarrow> ustring) \<Rightarrow> ustring \<Rightarrow> app \<Rightarrow> app" where
  "on_data_table_column_selected lower column_key s =
     (let column_name = key_map_get column_key;
          k = replace_space (lower column_name)
      in sort_plugins lower
           (if sort_key_attr s = k then s\<lparr> sort_reverse := \<not> sort_reverse s \<rparr>
            else s\<lparr> sort_key_attr := k, sort_reverse := False \<rparr>))"

subsection \<open>Filtering\<close>

definition searchable_text :: "(ustring \<Rightarrow> ustring) \<Rightarrow> plugin \<Rightarrow> error + ustring" where
  "searchable_text lower p =
     map_sum id lower
       (join (U '' '')
          [dict_get p (U ''Name''), dict_get p (U ''Manufacturer''),
           dict_get p (U ''Description''), dict_get p (U ''Plugin Type''),
           dict_get p (U ''Invsestigate'')])"

text \<open>The \<^verbatim>\<open>for\<close> loop of \<^verbatim>\<open>filter_plugins\<close>; \<open>acc\<close> is the list appended to.\<close>

fun filter_loop ::
    "(ustring \<Rightarrow> ustring) \<Rightarrow> ustring \<Rightarrow> plugin list \<Rightarrow> plugin list \<Rightarrow> error + plugin list" where
  "filter_loop lower query_lower acc [] = Inr acc"
| "filter_loop lower query_lower acc (p # ps) =
     (case searchable_text lower p of
        Inl e \<Rightarrow> Inl e
      | Inr t \<Rightarrow>
          filter_loop lower query_lower (if sublist query_lower t then acc @ [p] else acc) ps)"

text \<open>
  Lines 150 to 168: the new list bound to \<^verbatim>\<open>filtered_plugins\<close>, before it is sorted. In
  both branches it is a new list object.
\<close>

definition filter_engine ::
    "(ustring \<Rightarrow> ustring) \<Rightarrow> plugin list \<Rightarrow> ustring \<Rightarrow> error + plugin list" where
  "filter_engine lower ps query =
     (if strip query = [] then Inr ps else filter_loop lower (lower query) [] ps)"

definition filter_plugins :: "(ustring \<Rightarrow> ustring) \<Rightarrow> ustring \<Rightarrow> app \<Rightarrow> error + app" where
  "filter_plugins lower query s =
     (case filter_engine lower (plugins s) query of
        Inl e \<Rightarrow> Inl e
      | Inr fs \<Rightarrow>
          Inr (sort_plugins lower
                 (s\<lparr> search_query := query, filtered_plugins := fs,
                     filtered_is_plugins := False \<rparr>)))"

subsection \<open>Event handlers\<close>

definition on_input_submitted ::
    "(ustring \<Rightarrow> ustring) \<Rightarrow> ustring \<Rightarrow> ustring \<Rightarrow> app \<Rightarrow> error + app" where
  "on_input_submitted lower input_id v s =
     (if input_id = U ''search-input'' then filter_plugins lower v s else Inr s)"

definition on_input_changed ::
    "(ustring \<Rightarrow> ustring) \<Rightarrow> ustring \<Rightarrow> ustring \<Rightarrow> app \<Rightarrow> error + app" where
  "on_input_changed lower input_id v s =
     (if input_id = U ''search-input'' then filter_plugins lower v s else Inr s)"

definition action_focus_search :: "app \<Rightarrow> app" where
  "action_focus_search s = s"

text \<open>
  \<^verbatim>\<open>search_input.value = v\<close>, by the program: the widget keeps the value, and posts
  \<^verbatim>\<open>Input.Changed\<close> when the value is a new one.
\<close>

definition set_input_value :: "ustring \<Rightarrow> app \<Rightarrow> app" where
  "set_input_value v s =
     (if search_input_value s = v then s
      else s\<lparr> search_input_value := v, posted := posted s @ [v] \<rparr>)"

definition action_clear_search :: "(ustring \<Rightarrow> ustring) \<Rightarrow> app \<Rightarrow> app" where
  "action_clear_search lower s =
     sort_plugins lower
       ((set_input_value [] s)\<lparr> filtered_plugins := plugins s, filtered_is_plugins := False \<rparr>)"

text \<open>
  The events of the input controller, each delivered to its handler. The only input widget
  that \<^verbatim>\<open>compose\<close> creates has the id \<^verbatim>\<open>search-input\<close>; a change or submit event carries
  the value the widget has at that moment. Quitting ends the session and has no handler in
  the program.
\<close>

datatype event =
    SearchTextChanged ustring
  | SearchSubmitted ustring
  | ColumnSelected ustring
  | ClearSearch
  | FocusSearchRequested

fun handler :: "(ustring \<Rightarrow> ustring) \<Rightarrow> event \<Rightarrow> app \<Rightarrow> error + app" where
  "handler lower (SearchTextChanged t) s =
     on_input_changed lower (U ''search-input'') t (s\<lparr> search_input_value := t \<rparr>)"
| "handler lower (SearchSubmitted t) s =
     on_input_submitted lower (U ''search-input'') t (s\<lparr> search_input_value := t \<rparr>)"
| "handler lower (ColumnSelected k) s = Inr (on_data_table_column_selected lower k s)"
| "handler lower ClearSearch s = Inr (action_clear_search lower s)"
| "handler lower FocusSearchRequested s = Inr (action_focus_search s)"

text \<open>The posted \<^verbatim>\<open>Input.Changed\<close> messages, delivered in the order of their posting.\<close>

fun deliver :: "(ustring \<Rightarrow> ustring) \<Rightarrow> ustring list \<Rightarrow> app \<Rightarrow> error + app" where
  "deliver lower [] s = Inr s"
| "deliver lower (v # vs) s =
     (case on_input_changed lower (U ''search-input'') v s of
        Inl e \<Rightarrow> Inl e
      | Inr s' \<Rightarrow> deliver lower vs s')"

text \<open>An event, handled to the end: its handler, then the messages the handler posted.\<close>

definition handle :: "(ustring \<Rightarrow> ustring) \<Rightarrow> event \<Rightarrow> app \<Rightarrow> error + app" where
  "handle lower ev s =
     (case handler lower ev s of
        Inl e \<Rightarrow> Inl e
      | Inr s1 \<Rightarrow> deliver lower (posted s1) (s1\<lparr> posted := [] \<rparr>))"

text \<open>The states of a session: the state after mounting, and every state an event leads to.\<close>

inductive reachable :: "(ustring \<Rightarrow> ustring) \<Rightarrow> app \<Rightarrow> bool" for lower where
  mount: "on_mount r init_app = Inr s \<Longrightarrow> reachable lower s"
| step: "reachable lower s \<Longrightarrow> handle lower ev s = Inr s' \<Longrightarrow> reachable lower s'"

section \<open>Notions used to state the properties\<close>

text \<open>The five keys read from a record, in the order of the table's columns.\<close>

definition column_fields :: "ustring list" where
  "column_fields =
     [U ''Plugin Type'', U ''Name'', U ''Manufacturer'', U ''Description'', U ''Invsestigate'']"

text \<open>The same five keys in the order in which \<^verbatim>\<open>filter_plugins\<close> joins them.\<close>

definition search_fields :: "ustring list" where
  "search_fields =
     [U ''Name'', U ''Manufacturer'', U ''Description'', U ''Plugin Type'', U ''Invsestigate'']"

text \<open>
  A record is well formed when each of the five keys is either missing or bound to a string.
\<close>

definition wf_plugin :: "plugin \<Rightarrow> bool" where
  "wf_plugin p = list_all (\<lambda>f. is_str (dict_get p f)) column_fields"

text \<open>
  The lowercased concatenation, with single spaces between them, of the texts a record has
  under the keys \<open>fs\<close>.
\<close>

definition field_text :: "(ustring \<Rightarrow> ustring) \<Rightarrow> ustring list \<Rightarrow> plugin \<Rightarrow> ustring" where
  "field_text lower fs p = lower (intercalate (U '' '') (map (\<lambda>f. str (dict_get p f)) fs))"

text \<open>
  The visible records are, up to order, the records of the dataset that the filter keeps for
  the query \<open>q\<close>.
\<close>

definition visible_matches :: "(ustring \<Rightarrow> ustring) \<Rightarrow> app \<Rightarrow> ustring \<Rightarrow> bool" where
  "visible_matches lower s q =
     (case filter_engine lower (plugins s) q of
        Inl e \<Rightarrow> False
      | Inr ms \<Rightarrow> mset (filtered_plugins s) = mset ms)"

text \<open>
  What holds of every state of a session: the stored query is the text of the search input,
  no message is pending, the visible list is a list object of its own and holds the records
  matching the stored query, and an empty dataset shows as an empty table.
\<close>

definition consistent :: "(ustring \<Rightarrow> ustring) \<Rightarrow> app \<Rightarrow> bool" where
  "consistent lower s \<longleftrightarrow>
     search_query s = search_input_value s \<and> posted s = [] \<and> \<not> filtered_is_plugins s
     \<and> visible_matches lower s (search_query s)
     \<and> (plugins s = [] \<longrightarrow>
          filtered_plugins s = [] \<and> table_rows s = []
          \<and> stats s = U ''Showing 0 of 0 plugins'')"

definition names :: "plugin list \<Rightarrow> ustring list" where
  "names ps = map (\<lambda>p. str (dict_get p (U ''Name''))) ps"

definition types :: "plugin list \<Rightarrow> ustring list" where
  "types ps = map (\<lambda>p. str (dict_get p (U ''Plugin Type''))) ps"

definition flags :: "plugin list \<Rightarrow> ustring list" where
  "flags ps = map (\<lambda>p. str (dict_get p (U ''Invsestigate''))) ps"

subsection \<open>Sample data and sample sessions\<close>

definition beta :: plugin where
  "beta = [U ''Name'' \<mapsto> JStr (U ''Beta''), U ''Manufacturer'' \<mapsto> JStr (U ''X'')]"

definition alpha :: plugin where
  "alpha = [U ''Name'' \<mapsto> JStr (U ''alpha''), U ''Manufacturer'' \<mapsto> JStr (U ''Y'')]"

definition vst_foo :: plugin where
  "vst_foo = [U ''Plugin Type'' \<mapsto> JStr (U ''VST''), U ''Name'' \<mapsto> JStr (U ''Foo'')]"

definition p_bx :: plugin where
  "p_bx = [U ''Name'' \<mapsto> JStr (U ''b''), U ''Plugin Type'' \<mapsto> JStr (U ''x''),
           U ''Invsestigate'' \<mapsto> JStr (U ''m'')]"

definition p_ay :: plugin where
  "p_ay = [U ''Name'' \<mapsto> JStr (U ''a''), U ''Plugin Type'' \<mapsto> JStr (U ''y''),
           U ''Invsestigate'' \<mapsto> JStr (U ''p'')]"

definition p_cw :: plugin where
  "p_cw = [U ''Name'' \<mapsto> JStr (U ''c''), U ''Plugin Type'' \<mapsto> JStr (U ''w''),
           U ''Invsestigate'' \<mapsto> JStr (U ''n'')]"

definition mounted :: app where
  "mounted = projr (on_mount (Loaded [Obj beta, Obj alpha]) init_app)"

definition mounted_bac :: app where
  "mounted_bac = projr (on_mount (Loaded [Obj p_bx, Obj p_ay, Obj p_cw]) init_app)"

definition searched_y :: app where
  "searched_y = projr (handle ascii_lower (SearchTextChanged (U ''y'')) mounted)"

definition cleared_y :: app where
  "cleared_y = projr (handle ascii_lower ClearSearch searched_y)"

definition searched_zzz :: app where
  "searched_zzz = projr (handle ascii_lower (SearchTextChanged (U ''zzz'')) mounted)"

definition sorted_by_name :: app where
  "sorted_by_name = projr (handle ascii_lower (SearchTextChanged []) mounted)"

definition toggled_name :: app where
  "toggled_name = projr (handle ascii_lower (ColumnSelected (U ''name'')) sorted_by_name)"

definition type_clicked :: app where
  "type_clicked =
     projr (handle ascii_lower (ColumnSelected (U ''type''))
              (projr (on_mount (Loaded [Obj p_bx, Obj p_ay]) init_app)))"

section \<open>Basic facts\<close>

lemma U_eq_iff [simp]: "U s = U t \<longleftrightarrow> s = t"
  by (simp add: U_def inj_map_eq_map inj_def)

lemma U_Nil [simp]: "U [] = []"
  by (simp add: U_def)

lemma ascii_lower_Nil [simp]: "ascii_lower [] = []"
  by (simp add: ascii_lower_def)

lemma rows_foldl: "foldl (\<lambda>rows p. rows @ [row_of p]) acc ps = acc @ map row_of ps"
  by (induction ps arbitrary: acc) simp_all

lemma row_of_map: "row_of p = map (dict_get p) column_fields"
  by (simp add: row_of_def column_fields_def)

lemma searchable_text_wf:
  "searchable_text lower p =
     (if wf_plugin p then Inr (field_text lower search_fields p) else Inl TypeError)"
  unfolding searchable_text_def join_def wf_plugin_def field_text_def search_fields_def
    column_fields_def
  by (simp add: conj_ac)

lemma filter_loop_char:
  "filter_loop lower ql acc ps =
     (if list_all wf_plugin ps
      then Inr (acc @ filter (\<lambda>p. sublist ql (field_text lower search_fields p)) ps)
      else Inl TypeError)"
proof (induction ps arbitrary: acc)
  case Nil
  show ?case by simp
next
  case (Cons p ps)
  show ?case
  proof (cases "wf_plugin p")
    case True
    then have "searchable_text lower p = Inr (field_text lower search_fields p)"
      by (simp add: searchable_text_wf)
    then show ?thesis using True Cons.IH by simp
  next
    case False
    then have "searchable_text lower p = Inl TypeError"
      by (simp add: searchable_text_wf)
    then show ?thesis using False by simp
  qed
qed

lemma strip_empty_iff: "strip q = [] \<longleftrightarrow> list_all isspace q"
proof
  assume "strip q = []"
  then have a: "\<forall>x\<in>set (dropWhile isspace q). isspace x"
    by (simp add: strip_def dropWhile_eq_Nil_conv)
  have "dropWhile isspace q = []"
  proof (rule ccontr)
    assume n: "dropWhile isspace q \<noteq> []"
    then have "\<not> isspace (hd (dropWhile isspace q))" by (rule hd_dropWhile)
    moreover have "hd (dropWhile isspace q) \<in> set (dropWhile isspace q)" using n by simp
    ultimately show False using a by blast
  qed
  then show "list_all isspace q" by (simp add: dropWhile_eq_Nil_conv list_all_iff)
next
  assume "list_all isspace q"
  then show "strip q = []" by (auto simp: strip_def list_all_iff dest: set_dropWhileD)
qed

lemma filter_engine_char:
  "filter_engine lower D q =
     (if list_all isspace q then Inr D
      else if list_all wf_plugin D
        then Inr (filter (\<lambda>p. sublist (lower q) (field_text lower search_fields p)) D)
        else Inl TypeError)"
  by (simp add: filter_engine_def strip_empty_iff filter_loop_char)

lemma filter_engine_blank [simp]: "filter_engine lower D [] = Inr D"
  by (simp add: filter_engine_char)

lemma filter_engine_empty: "\<exists>ms. filter_engine lower [] q = Inr ms \<and> ms = []"
  by (simp add: filter_engine_char)

subsection \<open>What each method leaves alone\<close>

lemma populate_frame:
  "plugins (populate_table s) = plugins s"
  "filtered_plugins (populate_table s) = filtered_plugins s"
  "filtered_is_plugins (populate_table s) = filtered_is_plugins s"
  "sort_key_attr (populate_table s) = sort_key_attr s"
  "sort_reverse (populate_table s) = sort_reverse s"
  "search_query (populate_table s) = search_query s"
  "search_input_value (populate_table s) = search_input_value s"
  "posted (populate_table s) = posted s"
  "title (populate_table s) = title s"
  "notifications (populate_table s) = notifications s"
  "table_columns (populate_table s) = table_columns s"
  by (simp_all add: populate_table_def)

lemma populate_view:
  "table_rows (populate_table s) = map row_of (filtered_plugins s)"
  "stats (populate_table s) = U ''Showing '' @ show_nat (length (filtered_plugins s)) @ U '' of ''
                 @ show_nat (length (plugins s)) @ U '' plugins''"
  by (simp_all add: populate_table_def rows_foldl)

lemma sort_plugins_filtered:
  "filtered_plugins (sort_plugins lower s) =
     sort_key (get_sort_value lower (sort_key_attr s))
       (if sort_reverse s then rev (filtered_plugins s) else filtered_plugins s)"
  by (simp add: sort_plugins_def set_filtered_in_place_def list_sort_def Let_def populate_frame)

lemma sort_plugins_frame:
  "filtered_is_plugins (sort_plugins lower s) = filtered_is_plugins s"
  "sort_key_attr (sort_plugins lower s) = sort_key_attr s"
  "sort_reverse (sort_plugins lower s) = sort_reverse s"
  "search_query (sort_plugins lower s) = search_query s"
  "search_input_value (sort_plugins lower s) = search_input_value s"
  "posted (sort_plugins lower s) = posted s"
  by (simp_all add: sort_plugins_def set_filtered_in_place_def Let_def populate_frame)

lemma sort_plugins_dataset:
  "\<not> filtered_is_plugins s \<Longrightarrow> plugins (sort_plugins lower s) = plugins s"
  by (simp add: sort_plugins_def set_filtered_in_place_def Let_def populate_frame)

lemma sort_plugins_view:
  assumes "filtered_plugins s \<noteq> []" and "\<not> filtered_is_plugins s"
  shows "table_rows (sort_plugins lower s) = map row_of (filtered_plugins (sort_plugins lower s))"
    and "stats (sort_plugins lower s) =
           U ''Showing '' @ show_nat (length (filtered_plugins s)) @ U '' of ''
           @ show_nat (length (plugins s)) @ U '' plugins''"
  using assms
  by (simp_all add: sort_plugins_def set_filtered_in_place_def list_sort_def Let_def
      populate_frame populate_view)

lemma sort_plugins_Nil:
  "filtered_plugins s = [] \<Longrightarrow> sort_plugins lower s = s"
  by (simp add: sort_plugins_def)

lemma sort_plugins_sorted:
  "sorted (map (get_sort_value lower (sort_key_attr s)) (filtered_plugins (sort_plugins lower s)))"
  by (simp add: sort_plugins_filtered)

lemma mset_sort_plugins:
  "mset (filtered_plugins (sort_plugins lower s)) = mset (filtered_plugins s)"
  by (simp add: sort_plugins_filtered)

lemmas input_simps = on_input_changed_def on_input_submitted_def

lemma filter_plugins_Inr:
  assumes "filter_plugins lower t s = Inr s'"
  shows "plugins s' = plugins s" and "search_query s' = t" and "\<not> filtered_is_plugins s'"
    and "search_input_value s' = search_input_value s" and "posted s' = posted s"
    and "sort_key_attr s' = sort_key_attr s" and "sort_reverse s' = sort_reverse s"
    and "\<exists>ms. filter_engine lower (plugins s) t = Inr ms \<and> mset (filtered_plugins s') = mset ms"
  using assms
  by (auto simp: filter_plugins_def sort_plugins_frame sort_plugins_dataset mset_sort_plugins
      split: sum.splits)

lemma filter_plugins_visible:
  assumes "filter_plugins lower t s = Inr s'"
  shows "visible_matches lower s' (search_query s')"
  using filter_plugins_Inr [OF assms] by (auto simp: visible_matches_def)

lemma column_selected_frame:
  "search_query (on_data_table_column_selected lower k s) = search_query s"
  "search_input_value (on_data_table_column_selected lower k s) = search_input_value s"
  "posted (on_data_table_column_selected lower k s) = posted s"
  "filtered_is_plugins (on_data_table_column_selected lower k s) = filtered_is_plugins s"
  "mset (filtered_plugins (on_data_table_column_selected lower k s)) = mset (filtered_plugins s)"
  by (simp_all add: on_data_table_column_selected_def Let_def sort_plugins_frame mset_sort_plugins)

lemma column_selected_dataset:
  "\<not> filtered_is_plugins s \<Longrightarrow> plugins (on_data_table_column_selected lower k s) = plugins s"
  by (simp add: on_data_table_column_selected_def Let_def sort_plugins_dataset)

lemma column_selected_visible:
  "\<not> filtered_is_plugins s \<Longrightarrow>
     visible_matches lower (on_data_table_column_selected lower k s) q = visible_matches lower s q"
  by (simp add: visible_matches_def column_selected_frame column_selected_dataset
      split: sum.splits)

lemma clear_search_frame:
  "plugins (action_clear_search lower s) = plugins s"
  "\<not> filtered_is_plugins (action_clear_search lower s)"
  "search_query (action_clear_search lower s) = search_query s"
  "sort_key_attr (action_clear_search lower s) = sort_key_attr s"
  "sort_reverse (action_clear_search lower s) = sort_reverse s"
  "search_input_value (action_clear_search lower s) = []"
  "mset (filtered_plugins (action_clear_search lower s)) = mset (plugins s)"
  "posted (action_clear_search lower s) =
     (if search_input_value s = [] then posted s else posted s @ [[]])"
  by (auto simp: action_clear_search_def set_input_value_def sort_plugins_frame
      sort_plugins_dataset mset_sort_plugins)

lemma clear_search_filtered:
  "filtered_plugins (action_clear_search lower s) =
     sort_key (get_sort_value lower (sort_key_attr s))
       (if sort_reverse s then rev (plugins s) else plugins s)"
  by (auto simp: action_clear_search_def set_input_value_def sort_plugins_filtered)

lemma visible_all:
  "visible_matches lower s [] \<longleftrightarrow> mset (filtered_plugins s) = mset (plugins s)"
  by (simp add: visible_matches_def)

subsection \<open>Events\<close>

lemma sort_key_eq_Nil [simp]: "sort_key f xs = [] \<longleftrightarrow> xs = []"
  by (metis length_0_conv length_sort)

lemma posted_same: "posted s = v \<Longrightarrow> s\<lparr> posted := v \<rparr> = s"
  by auto

lemma filter_plugins_view:
  assumes "filter_plugins lower t s = Inr s'"
  shows "filtered_plugins s' = [] \<Longrightarrow> table_rows s' = table_rows s \<and> stats s' = stats s"
    and "filtered_plugins s' \<noteq> [] \<Longrightarrow>
           table_rows s' = map row_of (filtered_plugins s')
           \<and> stats s' = U ''Showing '' @ show_nat (length (filtered_plugins s')) @ U '' of ''
                 @ show_nat (length (plugins s')) @ U '' plugins''"
proof -
  obtain fs where fs: "filter_engine lower (plugins s) t = Inr fs"
    and s': "s' = sort_plugins lower (s\<lparr> search_query := t, filtered_plugins := fs,
                     filtered_is_plugins := False \<rparr>)"
    using assms by (auto simp: filter_plugins_def split: sum.splits)
  have e: "filtered_plugins s' = [] \<longleftrightarrow> fs = []"
    by (simp add: s' sort_plugins_filtered)
  show "filtered_plugins s' = [] \<Longrightarrow> table_rows s' = table_rows s \<and> stats s' = stats s"
    using e by (simp add: s' sort_plugins_Nil)
  show "filtered_plugins s' \<noteq> [] \<Longrightarrow>
           table_rows s' = map row_of (filtered_plugins s')
           \<and> stats s' = U ''Showing '' @ show_nat (length (filtered_plugins s')) @ U '' of ''
                 @ show_nat (length (plugins s')) @ U '' plugins''"
    using e by (simp add: s' sort_plugins_view sort_plugins_dataset sort_plugins_filtered)
qed

lemma deliver_total:
  assumes "list_all wf_plugin (plugins s)"
  shows "\<exists>s'. deliver lower vs s = Inr s' \<and> plugins s' = plugins s
           \<and> (vs \<noteq> [] \<or> \<not> filtered_is_plugins s \<longrightarrow> \<not> filtered_is_plugins s')"
  using assms
proof (induction vs arbitrary: s)
  case Nil
  then show ?case by simp
next
  case (Cons v vs)
  have "\<exists>s1. filter_plugins lower v s = Inr s1"
    using Cons.prems by (auto simp: filter_plugins_def filter_engine_char)
  then obtain s1 where s1: "filter_plugins lower v s = Inr s1" by blast
  note f = filter_plugins_Inr [OF s1]
  have "list_all wf_plugin (plugins s1)" using Cons.prems f(1) by simp
  from Cons.IH [OF this] obtain s' where
    "deliver lower vs s1 = Inr s'" "plugins s' = plugins s1"
    "vs \<noteq> [] \<or> \<not> filtered_is_plugins s1 \<longrightarrow> \<not> filtered_is_plugins s'"
    by blast
  then show ?case using s1 f(1,3) by (simp add: input_simps)
qed

lemma handler_total:
  assumes "list_all wf_plugin (plugins s)" and "\<not> filtered_is_plugins s"
  shows "\<exists>s'. handler lower ev s = Inr s' \<and> plugins s' = plugins s \<and> \<not> filtered_is_plugins s'"
  using assms
  by (cases ev)
    (simp_all add: input_simps filter_plugins_def filter_engine_char sort_plugins_frame
      sort_plugins_dataset column_selected_frame column_selected_dataset clear_search_frame
      action_focus_search_def)

lemma handle_total:
  assumes "list_all wf_plugin (plugins s)" and "\<not> filtered_is_plugins s"
  shows "\<exists>s'. handle lower ev s = Inr s' \<and> plugins s' = plugins s \<and> \<not> filtered_is_plugins s'"
proof -
  obtain s1 where s1: "handler lower ev s = Inr s1" "plugins s1 = plugins s"
    "\<not> filtered_is_plugins s1"
    using handler_total [OF assms] by blast
  have "list_all wf_plugin (plugins (s1\<lparr> posted := [] \<rparr>))" using assms(1) s1(2) by simp
  from deliver_total [OF this, of lower "posted s1"] obtain s' where
    "deliver lower (posted s1) (s1\<lparr> posted := [] \<rparr>) = Inr s'"
    "plugins s' = plugins s1" "\<not> filtered_is_plugins s'"
    using s1(3) by auto
  then show ?thesis using s1 by (simp add: handle_def)
qed

lemma handle_search:
  assumes "posted s = []"
  shows "handle lower (SearchTextChanged t) s
           = filter_plugins lower t (s\<lparr> search_input_value := t \<rparr>)"
    and "handle lower (SearchSubmitted t) s
           = filter_plugins lower t (s\<lparr> search_input_value := t \<rparr>)"
proof -
  have "(case filter_plugins lower t (s\<lparr> search_input_value := t \<rparr>) of
           Inl e \<Rightarrow> Inl e
         | Inr s1 \<Rightarrow> deliver lower (posted s1) (s1\<lparr> posted := [] \<rparr>))
        = filter_plugins lower t (s\<lparr> search_input_value := t \<rparr>)"
  proof (cases "filter_plugins lower t (s\<lparr> search_input_value := t \<rparr>)")
    case (Inl e)
    then show ?thesis by simp
  next
    case (Inr s1)
    have "posted s1 = []" using filter_plugins_Inr(5) [OF Inr] assms by simp
    then show ?thesis using Inr by (simp add: posted_same)
  qed
  then show "handle lower (SearchTextChanged t) s
           = filter_plugins lower t (s\<lparr> search_input_value := t \<rparr>)"
    and "handle lower (SearchSubmitted t) s
           = filter_plugins lower t (s\<lparr> search_input_value := t \<rparr>)"
    by (simp_all add: handle_def input_simps)
qed

lemma handle_column:
  assumes "posted s = []"
  shows "handle lower (ColumnSelected k) s = Inr (on_data_table_column_selected lower k s)"
  using assms by (simp add: handle_def column_selected_frame posted_same)

lemma handle_focus:
  assumes "posted s = []"
  shows "handle lower FocusSearchRequested s = Inr s"
  using assms by (simp add: handle_def action_focus_search_def posted_same)

text \<open>
  ClearSearch, handled to the end, in a state without pending messages: the state it leads
  to, field by field.
\<close>

lemma handle_clear:
  assumes "posted s = []"
  shows "\<exists>s'. handle lower ClearSearch s = Inr s'
      \<and> plugins s' = plugins s \<and> search_input_value s' = [] \<and> posted s' = []
      \<and> \<not> filtered_is_plugins s'
      \<and> sort_key_attr s' = sort_key_attr s \<and> sort_reverse s' = sort_reverse s
      \<and> search_query s' = (if search_input_value s = [] then search_query s else [])
      \<and> filtered_plugins s'
          = sort_key (get_sort_value lower (sort_key_attr s))
              (if sort_reverse s then rev (plugins s) else plugins s)
      \<and> (plugins s \<noteq> [] \<longrightarrow>
            table_rows s' = map row_of (filtered_plugins s')
            \<and> stats s' = U ''Showing '' @ show_nat (length (plugins s)) @ U '' of ''
                 @ show_nat (length (plugins s)) @ U '' plugins'')
      \<and> (plugins s = [] \<longrightarrow> table_rows s' = table_rows s \<and> stats s' = stats s)"
proof (cases "search_input_value s = []")
  case True
  let ?t = "s\<lparr> filtered_plugins := plugins s, filtered_is_plugins := False \<rparr>"
  have a: "action_clear_search lower s = sort_plugins lower ?t"
    using True by (simp add: action_clear_search_def set_input_value_def)
  have h: "handle lower ClearSearch s = Inr (sort_plugins lower ?t)"
    using assms by (simp add: handle_def a sort_plugins_frame posted_same)
  have v: "plugins s \<noteq> [] \<longrightarrow>
            table_rows (sort_plugins lower ?t) = map row_of (filtered_plugins (sort_plugins lower ?t))
            \<and> stats (sort_plugins lower ?t) = U ''Showing '' @ show_nat (length (plugins s)) @ U '' of ''
                 @ show_nat (length (plugins s)) @ U '' plugins''"
    by (simp add: sort_plugins_view)
  have w: "plugins s = [] \<longrightarrow> table_rows (sort_plugins lower ?t) = table_rows s
             \<and> stats (sort_plugins lower ?t) = stats s"
    by (simp add: sort_plugins_Nil)
  show ?thesis
    using True assms v w
    by (simp add: h sort_plugins_frame sort_plugins_dataset sort_plugins_filtered)
next
  case False
  let ?t = "s\<lparr> search_input_value := [], posted := [[]], filtered_plugins := plugins s,
               filtered_is_plugins := False \<rparr>"
  let ?u = "(sort_plugins lower ?t)\<lparr> posted := [], search_query := [],
               filtered_plugins := plugins s, filtered_is_plugins := False \<rparr>"
  have a: "action_clear_search lower s = sort_plugins lower ?t"
    using False assms by (simp add: action_clear_search_def set_input_value_def)
  have p: "plugins (sort_plugins lower ?t) = plugins s"
    by (simp add: sort_plugins_dataset)
  have h: "handle lower ClearSearch s = Inr (sort_plugins lower ?u)"
    by (simp add: handle_def a sort_plugins_frame input_simps filter_plugins_def p)
  have v: "plugins s \<noteq> [] \<longrightarrow>
            table_rows (sort_plugins lower ?u) = map row_of (filtered_plugins (sort_plugins lower ?u))
            \<and> stats (sort_plugins lower ?u) = U ''Showing '' @ show_nat (length (plugins s)) @ U '' of ''
                 @ show_nat (length (plugins s)) @ U '' plugins''"
    by (simp add: sort_plugins_view p)
  have w: "plugins s = [] \<longrightarrow> table_rows (sort_plugins lower ?u) = table_rows s
             \<and> stats (sort_plugins lower ?u) = stats s"
    by (simp add: sort_plugins_Nil)
  show ?thesis
    using False v w
    by (simp add: h sort_plugins_frame sort_plugins_dataset sort_plugins_filtered p)
qed

subsection \<open>The states of a session\<close>

lemma stats_zero:
  "U ''Showing '' @ show_nat 0 @ U '' of '' @ show_nat 0 @ U '' plugins''
     = U ''Showing 0 of 0 plugins''"
  by code_simp

lemma the_objects_Some: "the_objects items = Some ps \<longleftrightarrow> items = map Obj ps"
proof (induction items arbitrary: ps)
  case Nil
  show ?case by auto
next
  case (Cons x xs)
  show ?case
  proof (cases x)
    case (Obj p)
    then show ?thesis using Cons.IH by (cases ps) auto
  next
    case NonObj
    then show ?thesis by auto
  qed
qed

lemma on_mount_Inr:
  assumes "on_mount r s = Inr s'"
  shows "\<exists>l. s' = populate_table (setup_table (load_data l s))"
  using assms by (auto simp: on_mount_def split: load_result.splits option.splits)

lemma consistent_mount:
  assumes "on_mount r init_app = Inr s"
  shows "consistent lower s"
proof -
  obtain l where s: "s = populate_table (setup_table (load_data l init_app))"
    using on_mount_Inr [OF assms] by blast
  show ?thesis
    by (cases l)
      (simp_all add: s consistent_def visible_matches_def populate_frame populate_view
        setup_table_def load_data_def init_app_def stats_zero)
qed

lemma visible_empty_dataset:
  assumes "visible_matches lower s q" and "plugins s = []"
  shows "filtered_plugins s = []"
  using assms by (simp add: visible_matches_def filter_engine_char split: if_splits)

lemma consistent_step:
  assumes "consistent lower s" and "handle lower ev s = Inr s'"
  shows "consistent lower s' \<and> plugins s' = plugins s"
proof -
  have c: "search_query s = search_input_value s" "posted s = []" "\<not> filtered_is_plugins s"
    "visible_matches lower s (search_query s)"
    "plugins s = [] \<Longrightarrow> filtered_plugins s = [] \<and> table_rows s = []
       \<and> stats s = U ''Showing 0 of 0 plugins''"
    using assms(1) unfolding consistent_def by blast+
  have search: "consistent lower s' \<and> plugins s' = plugins s"
    if f: "filter_plugins lower t (s\<lparr> search_input_value := t \<rparr>) = Inr s'" for t
  proof -
    note i = filter_plugins_Inr [OF f]
    have v: "visible_matches lower s' (search_query s')" by (rule filter_plugins_visible [OF f])
    have e: "plugins s' = [] \<longrightarrow> filtered_plugins s' = [] \<and> table_rows s' = []
               \<and> stats s' = U ''Showing 0 of 0 plugins''"
    proof
      assume p: "plugins s' = []"
      then have n: "filtered_plugins s' = []" using v by (rule visible_empty_dataset [rotated])
      have "plugins s = []" using p i(1) by simp
      then show "filtered_plugins s' = [] \<and> table_rows s' = []
               \<and> stats s' = U ''Showing 0 of 0 plugins''"
        using n filter_plugins_view(1) [OF f n] c(5) by simp
    qed
    show ?thesis using i v e c(2) by (simp add: consistent_def)
  qed
  show ?thesis
  proof (cases ev)
    case (SearchTextChanged t)
    then show ?thesis using assms(2) search [of t] by (simp add: handle_search [OF c(2)])
  next
    case (SearchSubmitted t)
    then show ?thesis using assms(2) search [of t] by (simp add: handle_search [OF c(2)])
  next
    case (ColumnSelected k)
    then have s': "s' = on_data_table_column_selected lower k s"
      using assms(2) by (simp add: handle_column [OF c(2)])
    have e: "plugins s = [] \<longrightarrow> s' = sort_plugins lower
               (if sort_key_attr s = replace_space (lower (key_map_get k))
                then s\<lparr> sort_reverse := \<not> sort_reverse s \<rparr>
                else s\<lparr> sort_key_attr := replace_space (lower (key_map_get k)),
                       sort_reverse := False \<rparr>)"
      by (simp add: s' on_data_table_column_selected_def Let_def)
    have z: "plugins s = [] \<longrightarrow> filtered_plugins s' = [] \<and> table_rows s' = []
               \<and> stats s' = U ''Showing 0 of 0 plugins''"
      using c(5) by (auto simp: s' on_data_table_column_selected_def Let_def sort_plugins_Nil)
    show ?thesis
      using c z
      by (simp add: consistent_def s' column_selected_frame column_selected_dataset
          column_selected_visible)
  next
    case ClearSearch
    obtain t where t: "handle lower ClearSearch s = Inr t"
      "plugins t = plugins s" "search_input_value t = []" "posted t = []"
      "\<not> filtered_is_plugins t"
      "search_query t = (if search_input_value s = [] then search_query s else [])"
      "filtered_plugins t = sort_key (get_sort_value lower (sort_key_attr s))
              (if sort_reverse s then rev (plugins s) else plugins s)"
      "plugins s = [] \<longrightarrow> table_rows t = table_rows s \<and> stats t = stats s"
      using handle_clear [OF c(2), of lower] by blast
    have s': "s' = t" using assms(2) ClearSearch t(1) by simp
    have q: "search_query t = []" using t(6) c(1) by simp
    have v: "visible_matches lower t []" by (simp add: visible_all t)
    show ?thesis using t q v c(5) by (simp add: s' consistent_def)
  next
    case FocusSearchRequested
    then have "s' = s" using assms(2) by (simp add: handle_focus [OF c(2)])
    then show ?thesis using assms(1) by simp
  qed
qed

lemma reachable_consistent: "reachable lower s \<Longrightarrow> consistent lower s"
proof (induction rule: reachable.induct)
  case (mount r s)
  then show ?case by (rule consistent_mount)
next
  case (step s ev s')
  then show ?case using consistent_step by blast
qed

subsection \<open>The sort key\<close>

lemma key_map_get_Some: "map_of key_map k = Some f \<Longrightarrow> key_map_get k = f"
  by (simp add: key_map_get_def)

lemma key_map_get_unknown: "k \<notin> set (map fst key_map) \<Longrightarrow> key_map_get k = U ''Name''"
  by (simp add: key_map_get_def map_of_eq_None_iff [THEN iffD2])

lemma key_map_entries:
  "(k, f) \<in> {(U ''type'', U ''Plugin Type''), (U ''name'', U ''Name''),
             (U ''manufacturer'', U ''Manufacturer''), (U ''description'', U ''Description''),
             (U ''investigate'', U ''Invsestigate'')} \<Longrightarrow> key_map_get k = f"
  by (auto simp: key_map_get_def key_map_def)

lemma get_sort_value_unknown:
  "k \<notin> set (map fst key_map) \<Longrightarrow>
     get_sort_value lower k = (\<lambda>p. lower (str (dict_get p (U ''Name''))))"
  by (intro ext) (simp add: get_sort_value_def key_map_get_unknown)

lemma get_sort_value_name:
  "get_sort_value lower (U ''name'') = (\<lambda>p. lower (str (dict_get p (U ''Name''))))"
  by (intro ext) (simp add: get_sort_value_def key_map_get_def key_map_def)

lemma column_selected_unknown:
  "k \<notin> set (map fst key_map) \<Longrightarrow>
     on_data_table_column_selected lower k s
       = on_data_table_column_selected lower (U ''name'') s"
  by (simp add: on_data_table_column_selected_def key_map_get_unknown key_map_get_def key_map_def)

lemma replace_space_name: "replace_space (U ''name'') = U ''name''"
  by code_simp

lemma column_selected_name:
  assumes "lower (U ''Name'') = U ''name''"
  shows "sort_key_attr (on_data_table_column_selected lower (U ''name'') s) = U ''name''"
    and "filtered_plugins (on_data_table_column_selected lower (U ''name'') s)
           = sort_key (\<lambda>p. lower (str (dict_get p (U ''Name''))))
               (if sort_key_attr s = U ''name'' \<and> \<not> sort_reverse s
                then rev (filtered_plugins s) else filtered_plugins s)"
proof -
  have k: "replace_space (lower (key_map_get (U ''name''))) = U ''name''"
    using assms by (simp add: key_map_get_def key_map_def replace_space_name)
  show "sort_key_attr (on_data_table_column_selected lower (U ''name'') s) = U ''name''"
    by (simp add: on_data_table_column_selected_def Let_def k sort_plugins_frame)
  show "filtered_plugins (on_data_table_column_selected lower (U ''name'') s)
           = sort_key (\<lambda>p. lower (str (dict_get p (U ''Name''))))
               (if sort_key_attr s = U ''name'' \<and> \<not> sort_reverse s
                then rev (filtered_plugins s) else filtered_plugins s)"
    by (simp add: on_data_table_column_selected_def Let_def k sort_plugins_filtered
        get_sort_value_name)
qed

subsection \<open>The sample data\<close>

lemma wf_samples: "wf_plugin beta" "wf_plugin alpha" "wf_plugin vst_foo"
  by code_simp+

lemma blank_samples:
  "\<not> list_all isspace (U ''y'')" "\<not> list_all isspace (U ''vst foo'')"
  "list_all isspace (U '' '')" "list_all isspace [160, 12288]"
  by code_simp+

lemma match_y:
  "\<not> sublist (ascii_lower (U ''y'')) (field_text ascii_lower search_fields beta)"
  "sublist (ascii_lower (U ''y'')) (field_text ascii_lower search_fields alpha)"
  by code_simp+

lemma match_vst:
  "sublist (ascii_lower (U ''vst foo'')) (field_text ascii_lower column_fields vst_foo)"
  "\<not> sublist (ascii_lower (U ''vst foo'')) (field_text ascii_lower search_fields vst_foo)"
  by code_simp+

lemma filter_y: "filter_engine ascii_lower [beta, alpha] (U ''y'') = Inr [alpha]"
  by (simp add: filter_engine_char match_y wf_samples blank_samples)

lemma mounted_eq: "on_mount (Loaded [Obj beta, Obj alpha]) init_app = Inr mounted"
  by (simp add: mounted_def on_mount_def)

lemma mounted_fields:
  "plugins mounted = [beta, alpha]" "filtered_plugins mounted = [beta, alpha]"
  "search_query mounted = []" "sort_key_attr mounted = U ''name''" "sort_reverse mounted = False"
  "filtered_is_plugins mounted = False" "posted mounted = []" "search_input_value mounted = []"
  by (simp_all add: mounted_def on_mount_def populate_frame setup_table_def load_data_def
      init_app_def)

lemma searched_y_eq:
  "handle ascii_lower (SearchTextChanged (U ''y'')) mounted = Inr searched_y"
proof -
  have "list_all wf_plugin (plugins mounted)" "\<not> filtered_is_plugins mounted"
    by (simp_all add: mounted_fields wf_samples)
  from handle_total [OF this, of ascii_lower "SearchTextChanged (U ''y'')"]
  show ?thesis by (auto simp: searched_y_def)
qed

lemma searched_y_fields:
  "plugins searched_y = [beta, alpha]" "filtered_plugins searched_y = [alpha]"
  "search_query searched_y = U ''y''" "filtered_is_plugins searched_y = False"
  "posted searched_y = []" "search_input_value searched_y = U ''y''"
  by (simp_all add: searched_y_def handle_search mounted_fields filter_plugins_def filter_y
      sort_plugins_frame sort_plugins_dataset sort_plugins_filtered)

lemma reachable_samples:
  "reachable ascii_lower mounted" "reachable ascii_lower searched_y"
proof -
  show m: "reachable ascii_lower mounted" by (rule reachable.mount [OF mounted_eq])
  show "reachable ascii_lower searched_y" by (rule reachable.step [OF m searched_y_eq])
qed

lemma cleared_y_eq: "handle ascii_lower ClearSearch searched_y = Inr cleared_y"
  using handle_clear [of searched_y ascii_lower] by (auto simp: cleared_y_def searched_y_fields)

lemma join_raises_on_non_string:
  "filter_engine lower [[U ''Name'' \<mapsto> JOther (U ''3'')]] (U ''y'') = Inl TypeError"
proof -
  have "\<not> wf_plugin [U ''Name'' \<mapsto> JOther (U ''3'')]" by code_simp
  then show ?thesis by (simp add: filter_engine_char blank_samples)
qed

section \<open>The filter engine\<close>

text \<open>
  Claim C2, as the specification states it, joins the five fields in the order type, name,
  manufacturer, description, investigate-flag. The record \<open>vst_foo\<close> has the type
  \<^verbatim>\<open>VST\<close> and the name \<^verbatim>\<open>Foo\<close>: the query \<^verbatim>\<open>vst foo\<close> is a substring of its text in
  that order, and yet the filter does not keep the record.
\<close>

theorem filter_spec_order_counterexample:
  "wf_plugin vst_foo \<and> \<not> list_all isspace (U ''vst foo'')
   \<and> sublist (ascii_lower (U ''vst foo''))
        (field_text ascii_lower
           [U ''Plugin Type'', U ''Name'', U ''Manufacturer'', U ''Description'',
            U ''Invsestigate''] vst_foo)
   \<and> filter_engine ascii_lower [vst_foo] (U ''vst foo'') = Inr []"
  using match_vst wf_samples by (simp add: filter_engine_char column_fields_def blank_samples)

text \<open>
  Claim C2, amended. A query that is empty or consists of whitespace only gives the whole
  dataset in its order. Any other query, on a dataset whose records are well formed, gives
  exactly the records whose text contains the lowercased query, in dataset order, where the
  text of a record is the lowercased concatenation with single spaces of its fields in the
  order name, manufacturer, description, type, investigate-flag, a missing field counting as
  empty. (On a record with a non-string under one of the five keys the join raises
  \<^verbatim>\<open>TypeError\<close>.) This is the list \<^verbatim>\<open>filter_plugins\<close> builds; the method then hands it
  to the sort.
\<close>

theorem filter_engine_result:
  "filter_engine lower D q =
     (if list_all isspace q then Inr D
      else if list_all wf_plugin D
        then Inr (filter (\<lambda>p. sublist (lower q)
                    (field_text lower
                       [U ''Name'', U ''Manufacturer'', U ''Description'', U ''Plugin Type'',
                        U ''Invsestigate''] p)) D)
        else Inl TypeError)"
  using filter_engine_char [of lower D q] by (simp add: search_fields_def)

theorem filter_engine_result_witness:
  "map_sum id names (filter_engine ascii_lower [beta, alpha] (U ''y'')) = Inr [U ''alpha'']
   \<and> map_sum id names (filter_engine ascii_lower [beta, alpha] (U '' ''))
       = Inr [U ''Beta'', U ''alpha'']
   \<and> map_sum id names (filter_engine ascii_lower [beta, alpha] [160, 12288])
       = Inr [U ''Beta'', U ''alpha'']"
proof -
  have n: "names [alpha] = [U ''alpha'']" "names [beta, alpha] = [U ''Beta'', U ''alpha'']"
    by code_simp+
  have "filter_engine ascii_lower [beta, alpha] (U ''y'') = Inr [alpha]"
    using filter_engine_result [of ascii_lower "[beta, alpha]" "U ''y''"] match_y wf_samples
    by (simp add: search_fields_def blank_samples)
  moreover have "filter_engine ascii_lower [beta, alpha] (U '' '') = Inr [beta, alpha]"
    using filter_engine_result [of ascii_lower "[beta, alpha]" "U '' ''"]
    by (simp add: blank_samples)
  moreover have "filter_engine ascii_lower [beta, alpha] [160, 12288] = Inr [beta, alpha]"
    using filter_engine_result [of ascii_lower "[beta, alpha]" "[160, 12288]"] blank_samples(4)
    by (simp only: if_True)
  ultimately show ?thesis using n by simp
qed

section \<open>The sort engine\<close>

text \<open>
  Claim C5. For each of the five fields, sorting with the key that \<^verbatim>\<open>get_sort_value\<close>
  has for the field and with the direction flag off gives, for every visible list, the
  stable ascending sort by the lowercased text of that field: the result holds the same
  records, in non-decreasing order of that key, with records of equal key in the order they
  had before. A record without the field has the key of the empty string, which is empty
  and below or equal to every other key.
\<close>

theorem sort_ascending_stable:
  assumes "(k, f) \<in> {(U ''type'', U ''Plugin Type''), (U ''name'', U ''Name''),
             (U ''manufacturer'', U ''Manufacturer''), (U ''description'', U ''Description''),
             (U ''investigate'', U ''Invsestigate'')}"
    and "lower [] = []"
  shows "filtered_plugins (sort_plugins lower (s\<lparr>sort_key_attr := k, sort_reverse := False\<rparr>))
           = sort_key (\<lambda>p. lower (str (dict_get p f))) (filtered_plugins s)
       \<and> mset (filtered_plugins (sort_plugins lower (s\<lparr>sort_key_attr := k, sort_reverse := False\<rparr>)))
           = mset (filtered_plugins s)
       \<and> sorted (map (\<lambda>p. lower (str (dict_get p f)))
           (filtered_plugins (sort_plugins lower (s\<lparr>sort_key_attr := k, sort_reverse := False\<rparr>))))
       \<and> (\<forall>v. filter (\<lambda>p. lower (str (dict_get p f)) = v)
                (filtered_plugins (sort_plugins lower (s\<lparr>sort_key_attr := k, sort_reverse := False\<rparr>)))
              = filter (\<lambda>p. lower (str (dict_get p f)) = v) (filtered_plugins s))
       \<and> (\<forall>p q. p f = None \<longrightarrow>
              lower (str (dict_get p f)) = [] \<and>
              lower (str (dict_get p f)) \<le> lower (str (dict_get q f)))"
proof -
  have g: "get_sort_value lower k = (\<lambda>p. lower (str (dict_get p f)))"
    using key_map_entries [OF assms(1)] by (intro ext) (simp add: get_sort_value_def)
  have e: "filtered_plugins (sort_plugins lower (s\<lparr>sort_key_attr := k, sort_reverse := False\<rparr>))
             = sort_key (\<lambda>p. lower (str (dict_get p f))) (filtered_plugins s)"
    by (simp add: sort_plugins_filtered g)
  have m: "\<And>p. p f = None \<Longrightarrow> lower (str (dict_get p f)) = []"
    using assms(2) by (simp add: dict_get_def)
  show ?thesis
    by (simp add: e sort_key_stable m)
qed

theorem sort_ascending_stable_witness:
  "ascii_lower [] = []
   \<and> names (filtered_plugins mounted_bac) = [U ''b'', U ''a'', U ''c'']
   \<and> types (filtered_plugins (sort_plugins ascii_lower
        (mounted_bac\<lparr>sort_key_attr := U ''type'', sort_reverse := False\<rparr>)))
       = [U ''w'', U ''x'', U ''y'']
   \<and> flags (filtered_plugins (sort_plugins ascii_lower
        (mounted_bac\<lparr>sort_key_attr := U ''investigate'', sort_reverse := False\<rparr>)))
       = [U ''m'', U ''n'', U ''p'']
   \<and> names (filtered_plugins (sort_plugins ascii_lower
        (mounted_bac\<lparr>sort_key_attr := U ''name'', sort_reverse := False\<rparr>)))
       = [U ''a'', U ''b'', U ''c'']
   \<and> sorted (map (\<lambda>p. ascii_lower (str (dict_get p (U ''Plugin Type''))))
        (filtered_plugins (sort_plugins ascii_lower
           (mounted_bac\<lparr>sort_key_attr := U ''type'', sort_reverse := False\<rparr>))))
   \<and> sorted (map (\<lambda>p. ascii_lower (str (dict_get p (U ''Invsestigate''))))
        (filtered_plugins (sort_plugins ascii_lower
           (mounted_bac\<lparr>sort_key_attr := U ''investigate'', sort_reverse := False\<rparr>))))"
proof -
  have h: "ascii_lower [] = []" by simp
  have t: "(U ''type'', U ''Plugin Type'') \<in> {(U ''type'', U ''Plugin Type''), (U ''name'', U ''Name''),
             (U ''manufacturer'', U ''Manufacturer''), (U ''description'', U ''Description''),
             (U ''investigate'', U ''Invsestigate'')}" by simp
  have i: "(U ''investigate'', U ''Invsestigate'') \<in> {(U ''type'', U ''Plugin Type''), (U ''name'', U ''Name''),
             (U ''manufacturer'', U ''Manufacturer''), (U ''description'', U ''Description''),
             (U ''investigate'', U ''Invsestigate'')}" by simp
  have e: "names (filtered_plugins mounted_bac) = [U ''b'', U ''a'', U ''c'']"
    "types (filtered_plugins (sort_plugins ascii_lower
        (mounted_bac\<lparr>sort_key_attr := U ''type'', sort_reverse := False\<rparr>)))
       = [U ''w'', U ''x'', U ''y'']"
    "flags (filtered_plugins (sort_plugins ascii_lower
        (mounted_bac\<lparr>sort_key_attr := U ''investigate'', sort_reverse := False\<rparr>)))
       = [U ''m'', U ''n'', U ''p'']"
    "names (filtered_plugins (sort_plugins ascii_lower
        (mounted_bac\<lparr>sort_key_attr := U ''name'', sort_reverse := False\<rparr>)))
       = [U ''a'', U ''b'', U ''c'']"
    by code_simp+
  note a = sort_ascending_stable [where lower = ascii_lower and s = mounted_bac, OF t h]
  note b = sort_ascending_stable [where lower = ascii_lower and s = mounted_bac, OF i h]
  show ?thesis
    by (intro conjI h e a [THEN conjunct2, THEN conjunct2, THEN conjunct1]
        b [THEN conjunct2, THEN conjunct2, THEN conjunct1])
qed

text \<open>
  Claim C1. The specification's scenario: the dataset Beta, alpha is sorted by name, which
  gives alpha, Beta, and the Name column is then selected again. The direction flag is now
  on, and the specification promises the reversal Beta, alpha. In the code the list is
  sorted with \<^verbatim>\<open>reverse=True\<close> and then reversed once more, and the order stays alpha, Beta.
  (Lemma \<open>sort_plugins_sorted\<close>: the visible list ends in ascending key order whatever
  the flag.)
\<close>

theorem toggle_name_stays_ascending:
  "names (filtered_plugins sorted_by_name) = [U ''alpha'', U ''Beta'']
   \<and> sort_key_attr toggled_name = U ''name'' \<and> sort_reverse toggled_name
   \<and> names (filtered_plugins toggled_name) = [U ''alpha'', U ''Beta'']
   \<and> rev (names (filtered_plugins sorted_by_name)) = [U ''Beta'', U ''alpha'']"
  by code_simp

text \<open>
  Claim C10. A sort key outside the five keys of \<open>key_map\<close> is read as the Name field:
  the sort then gives the visible records in the stable ascending order of their lowercased
  names, the order the key \<^verbatim>\<open>name\<close> gives. A column key outside the five is handled as
  the column \<^verbatim>\<open>name\<close> is: the stored key becomes \<^verbatim>\<open>name\<close> and the visible records are
  put in that order. (\<^verbatim>\<open>"Name".lower()\<close> is \<^verbatim>\<open>"name"\<close>.)
\<close>

theorem unknown_key_falls_back_to_name:
  assumes "k \<notin> {U ''type'', U ''name'', U ''manufacturer'', U ''description'', U ''investigate''}"
    and "lower (U ''Name'') = U ''name''"
  shows "get_sort_value lower k p = lower (str (dict_get p (U ''Name'')))
       \<and> filtered_plugins (sort_plugins lower (s\<lparr>sort_key_attr := k\<rparr>))
           = sort_key (\<lambda>p. lower (str (dict_get p (U ''Name''))))
               (if sort_reverse s then rev (filtered_plugins s) else filtered_plugins s)
       \<and> filtered_plugins (sort_plugins lower (s\<lparr>sort_key_attr := k\<rparr>))
           = filtered_plugins (sort_plugins lower (s\<lparr>sort_key_attr := U ''name''\<rparr>))
       \<and> mset (filtered_plugins (sort_plugins lower (s\<lparr>sort_key_attr := k\<rparr>)))
           = mset (filtered_plugins s)
       \<and> sorted (map (\<lambda>p. lower (str (dict_get p (U ''Name''))))
                 (filtered_plugins (sort_plugins lower (s\<lparr>sort_key_attr := k\<rparr>))))
       \<and> on_data_table_column_selected lower k s
           = on_data_table_column_selected lower (U ''name'') s
       \<and> sort_key_attr (on_data_table_column_selected lower k s) = U ''name''
       \<and> filtered_plugins (on_data_table_column_selected lower k s)
           = sort_key (\<lambda>p. lower (str (dict_get p (U ''Name''))))
               (if sort_key_attr s = U ''name'' \<and> \<not> sort_reverse s
                then rev (filtered_plugins s) else filtered_plugins s)
       \<and> mset (filtered_plugins (on_data_table_column_selected lower k s))
           = mset (filtered_plugins s)
       \<and> sorted (map (\<lambda>p. lower (str (dict_get p (U ''Name''))))
                 (filtered_plugins (on_data_table_column_selected lower k s)))"
proof -
  have u: "k \<notin> set (map fst key_map)" using assms(1) by (simp add: key_map_def)
  note g = get_sort_value_unknown [OF u, of lower]
  have c: "on_data_table_column_selected lower k s
             = on_data_table_column_selected lower (U ''name'') s"
    by (rule column_selected_unknown [OF u])
  note n = column_selected_name [where lower = lower and s = s, OF assms(2)]
  have 1: "get_sort_value lower k p = lower (str (dict_get p (U ''Name'')))" by (simp add: g)
  have 2: "filtered_plugins (sort_plugins lower (s\<lparr>sort_key_attr := k\<rparr>))
           = sort_key (\<lambda>p. lower (str (dict_get p (U ''Name''))))
               (if sort_reverse s then rev (filtered_plugins s) else filtered_plugins s)"
    by (simp add: sort_plugins_filtered g)
  have 3: "filtered_plugins (sort_plugins lower (s\<lparr>sort_key_attr := k\<rparr>))
           = filtered_plugins (sort_plugins lower (s\<lparr>sort_key_attr := U ''name''\<rparr>))"
    by (simp add: sort_plugins_filtered g get_sort_value_name)
  have 4: "mset (filtered_plugins (sort_plugins lower (s\<lparr>sort_key_attr := k\<rparr>)))
           = mset (filtered_plugins s)"
    by (simp add: mset_sort_plugins)
  have 5: "sorted (map (\<lambda>p. lower (str (dict_get p (U ''Name''))))
                 (filtered_plugins (sort_plugins lower (s\<lparr>sort_key_attr := k\<rparr>))))"
    by (simp add: 2)
  have 7: "sort_key_attr (on_data_table_column_selected lower k s) = U ''name''"
    by (simp add: c n(1))
  have 8: "filtered_plugins (on_data_table_column_selected lower k s)
           = sort_key (\<lambda>p. lower (str (dict_get p (U ''Name''))))
               (if sort_key_attr s = U ''name'' \<and> \<not> sort_reverse s
                then rev (filtered_plugins s) else filtered_plugins s)"
    by (simp only: c n(2))
  have 9: "mset (filtered_plugins (on_data_table_column_selected lower k s))
           = mset (filtered_plugins s)"
    by (simp add: column_selected_frame)
  have 10: "sorted (map (\<lambda>p. lower (str (dict_get p (U ''Name''))))
                 (filtered_plugins (on_data_table_column_selected lower k s)))"
    by (simp add: 8)
  show ?thesis using 1 2 3 4 5 c 7 8 9 10 by blast
qed

theorem unknown_key_falls_back_to_name_witness:
  "U ''plugintype'' \<notin> {U ''type'', U ''name'', U ''manufacturer'', U ''description'',
                        U ''investigate''}
   \<and> ascii_lower (U ''Name'') = U ''name''
   \<and> get_sort_value ascii_lower (U ''plugintype'') p_bx = U ''b''
   \<and> names (filtered_plugins mounted_bac) = [U ''b'', U ''a'', U ''c'']
   \<and> names (filtered_plugins (sort_plugins ascii_lower
        (mounted_bac\<lparr>sort_key_attr := U ''plugintype''\<rparr>))) = [U ''a'', U ''b'', U ''c'']
   \<and> sort_key_attr (on_data_table_column_selected ascii_lower (U ''nosuchcolumn'') mounted_bac)
       = U ''name''
   \<and> names (filtered_plugins
        (on_data_table_column_selected ascii_lower (U ''nosuchcolumn'') mounted_bac))
       = [U ''a'', U ''b'', U ''c'']
   \<and> sorted (map (\<lambda>p. ascii_lower (str (dict_get p (U ''Name''))))
        (filtered_plugins (sort_plugins ascii_lower
           (mounted_bac\<lparr>sort_key_attr := U ''plugintype''\<rparr>))))"
proof -
  have h: "U ''plugintype'' \<notin> {U ''type'', U ''name'', U ''manufacturer'', U ''description'',
                        U ''investigate''}"
    by simp
  have h': "U ''nosuchcolumn'' \<notin> {U ''type'', U ''name'', U ''manufacturer'', U ''description'',
                        U ''investigate''}"
    by simp
  have l: "ascii_lower (U ''Name'') = U ''name''" by code_simp
  have e: "get_sort_value ascii_lower (U ''plugintype'') p_bx = U ''b''"
    "names (filtered_plugins mounted_bac) = [U ''b'', U ''a'', U ''c'']"
    "names (filtered_plugins (sort_plugins ascii_lower
        (mounted_bac\<lparr>sort_key_attr := U ''plugintype''\<rparr>))) = [U ''a'', U ''b'', U ''c'']"
    "names (filtered_plugins
        (on_data_table_column_selected ascii_lower (U ''nosuchcolumn'') mounted_bac))
       = [U ''a'', U ''b'', U ''c'']"
    by code_simp+
  note t = unknown_key_falls_back_to_name
        [where lower = ascii_lower and p = p_bx and s = mounted_bac, OF h l]
  note t' = unknown_key_falls_back_to_name
        [where lower = ascii_lower and p = p_bx and s = mounted_bac, OF h' l]
  note a = t' [THEN conjunct2, THEN conjunct2, THEN conjunct2, THEN conjunct2, THEN conjunct2,
      THEN conjunct2, THEN conjunct1]
  note b = t [THEN conjunct2, THEN conjunct2, THEN conjunct2, THEN conjunct2, THEN conjunct1]
  show ?thesis
    by (intro conjI h l e a b)
qed

section \<open>The input controller\<close>

text \<open>
  Claim C3. The dataset holds the records (name b, type x) and (name a, type y), in that
  order, and the Plugin Type column is selected. The handler stores the sort key
  \<^verbatim>\<open>plugintype\<close>, the lowercased field name without its space, which \<^verbatim>\<open>get_sort_value\<close>
  does not know and reads as Name: the records come out ordered by name, a before b, and so
  with their types in the order y, x.
\<close>

theorem type_column_sorts_by_name:
  "names (plugins type_clicked) = [U ''b'', U ''a'']
   \<and> types (plugins type_clicked) = [U ''x'', U ''y'']
   \<and> sort_key_attr type_clicked = U ''plugintype'' \<and> \<not> sort_reverse type_clicked
   \<and> names (filtered_plugins type_clicked) = [U ''a'', U ''b'']
   \<and> types (filtered_plugins type_clicked) = [U ''y'', U ''x'']"
  by code_simp

text \<open>
  Claim C4. On the dataset Beta, alpha, shown in full, the search text \<^verbatim>\<open>zzz\<close> matches no
  record. \<^verbatim>\<open>sort_plugins\<close> returns at once on the empty list, before it reaches
  \<^verbatim>\<open>populate_table\<close>: the table keeps its two rows and the status line still reads
  2 of 2.
\<close>

theorem empty_search_leaves_view_stale:
  "length (plugins searched_zzz) = 2 \<and> length (filtered_plugins searched_zzz) = 0
   \<and> search_query searched_zzz = U ''zzz''
   \<and> length (table_rows searched_zzz) = 2
   \<and> stats searched_zzz = U ''Showing 2 of 2 plugins''"
  by code_simp

text \<open>
  Claim C6. In every state of a session, the ClearSearch event, handled to the end, leaves
  the stored query and the text of the search input empty; the visible list is the whole
  dataset in the order the sort gives it; the table holds one row for each visible record
  and the status line shows the size of the dataset twice; the dataset, the sort key and the
  direction flag are as they were.
\<close>

theorem clear_search_effect:
  assumes "reachable lower s"
  shows "\<exists>s'. handle lower ClearSearch s = Inr s'
      \<and> search_query s' = [] \<and> search_input_value s' = []
      \<and> plugins s' = plugins s
      \<and> filtered_plugins s'
          = sort_key (get_sort_value lower (sort_key_attr s))
              (if sort_reverse s then rev (plugins s) else plugins s)
      \<and> mset (filtered_plugins s') = mset (plugins s)
      \<and> table_rows s' = map row_of (filtered_plugins s')
      \<and> stats s' = U ''Showing '' @ show_nat (length (plugins s)) @ U '' of ''
                 @ show_nat (length (plugins s)) @ U '' plugins''
      \<and> sort_key_attr s' = sort_key_attr s \<and> sort_reverse s' = sort_reverse s"
proof -
  have c: "search_query s = search_input_value s" "posted s = []"
    "plugins s = [] \<Longrightarrow> table_rows s = [] \<and> stats s = U ''Showing 0 of 0 plugins''"
    using reachable_consistent [OF assms] unfolding consistent_def by blast+
  obtain t where t: "handle lower ClearSearch s = Inr t"
    "plugins t = plugins s" "search_input_value t = []"
    "sort_key_attr t = sort_key_attr s" "sort_reverse t = sort_reverse s"
    "search_query t = (if search_input_value s = [] then search_query s else [])"
    "filtered_plugins t = sort_key (get_sort_value lower (sort_key_attr s))
              (if sort_reverse s then rev (plugins s) else plugins s)"
    "plugins s \<noteq> [] \<longrightarrow>
            table_rows t = map row_of (filtered_plugins t)
            \<and> stats t = U ''Showing '' @ show_nat (length (plugins s)) @ U '' of ''
                 @ show_nat (length (plugins s)) @ U '' plugins''"
    "plugins s = [] \<longrightarrow> table_rows t = table_rows s \<and> stats t = stats s"
    using handle_clear [OF c(2), of lower] by blast
  have q: "search_query t = []" using t(6) c(1) by simp
  have m: "mset (filtered_plugins t) = mset (plugins s)" by (simp add: t(7))
  have v: "table_rows t = map row_of (filtered_plugins t)
           \<and> stats t = U ''Showing '' @ show_nat (length (plugins s)) @ U '' of ''
                 @ show_nat (length (plugins s)) @ U '' plugins''"
  proof (cases "plugins s = []")
    case True
    then show ?thesis using t(7,9) c(3) by (simp add: stats_zero)
  next
    case False
    then show ?thesis using t(8) by blast
  qed
  show ?thesis using t(1,2,3,4,5,7) q m v by blast
qed

theorem clear_search_effect_witness:
  "reachable ascii_lower searched_y
   \<and> search_query searched_y = U ''y''
   \<and> handle ascii_lower ClearSearch searched_y = Inr cleared_y
   \<and> search_query cleared_y = [] \<and> search_input_value cleared_y = []
   \<and> names (filtered_plugins cleared_y) = [U ''alpha'', U ''Beta'']
   \<and> table_rows cleared_y = map row_of (filtered_plugins cleared_y)
   \<and> stats cleared_y = U ''Showing 2 of 2 plugins''"
proof -
  have r: "reachable ascii_lower searched_y" by (rule reachable_samples)
  have e: "names (filtered_plugins cleared_y) = [U ''alpha'', U ''Beta'']"
    "stats cleared_y = U ''Showing 2 of 2 plugins''"
    by code_simp+
  obtain s' where s': "handle ascii_lower ClearSearch searched_y = Inr s'"
    "search_query s' = []" "search_input_value s' = []"
    "table_rows s' = map row_of (filtered_plugins s')"
    using clear_search_effect [OF r] by blast
  have "s' = cleared_y" using s'(1) cleared_y_eq by simp
  then show ?thesis using r e s' cleared_y_eq by (simp add: searched_y_fields)
qed

section \<open>The visible subset and the dataset\<close>

text \<open>
  Claim C7. In every state of a session the visible records are, up to order, exactly the
  records of the dataset that match the stored query; every event that is handled leads to a
  state where this holds again, and leaves the dataset as it was: the visible list, which
  the sort reorders in place, is always a list object of its own.
\<close>

theorem visible_subset_invariant:
  assumes "reachable lower s"
  shows "visible_matches lower s (search_query s) \<and> \<not> filtered_is_plugins s
       \<and> (\<forall>ev s'. handle lower ev s = Inr s' \<longrightarrow>
             visible_matches lower s' (search_query s') \<and> \<not> filtered_is_plugins s'
             \<and> plugins s' = plugins s)"
proof -
  have c: "consistent lower s" by (rule reachable_consistent [OF assms])
  have "consistent lower s' \<and> plugins s' = plugins s"
    if "handle lower ev s = Inr s'" for ev s'
    using consistent_step [OF c that] .
  then show ?thesis using c unfolding consistent_def by blast
qed

theorem visible_subset_invariant_witness:
  "reachable ascii_lower searched_y
   \<and> visible_matches ascii_lower searched_y (search_query searched_y)
   \<and> names (filtered_plugins searched_y) = [U ''alpha'']
   \<and> handle ascii_lower ClearSearch searched_y = Inr cleared_y
   \<and> visible_matches ascii_lower cleared_y (search_query cleared_y)
   \<and> search_query cleared_y = []
   \<and> names (filtered_plugins cleared_y) = [U ''alpha'', U ''Beta'']
   \<and> plugins cleared_y = [beta, alpha]"
proof -
  have r: "reachable ascii_lower searched_y" by (rule reachable_samples)
  note t = visible_subset_invariant [OF r]
  have a: "visible_matches ascii_lower searched_y (search_query searched_y)"
    using t by blast
  have b: "visible_matches ascii_lower cleared_y (search_query cleared_y)"
    "plugins cleared_y = plugins searched_y"
    using t cleared_y_eq by blast+
  have e: "names (filtered_plugins searched_y) = [U ''alpha'']"
    "search_query cleared_y = []"
    "names (filtered_plugins cleared_y) = [U ''alpha'', U ''Beta'']"
    by code_simp+
  show ?thesis using r a b e cleared_y_eq by (simp add: searched_y_fields)
qed

section \<open>Failure of the initial load, and totality\<close>



text \<open>
  Claim C9. On a dataset of well-formed records (the visible list being a list object of
  its own), filtering returns a state and so does the handling of every event, with the
  dataset unchanged; the searchable text of every record is defined. A field that a record
  lacks is read as the empty string: by \<^verbatim>\<open>get\<close> itself, as the sort key, which is the
  lowercased empty string, and as the cell of the table row. Sorting and rendering have no
  failing step at all: \<^verbatim>\<open>str\<close> accepts every value, and so does \<^verbatim>\<open>add_row\<close>.
\<close>

theorem operations_total_on_well_formed:
  assumes "list_all wf_plugin (plugins s)" and "\<not> filtered_is_plugins s"
  shows "(\<exists>s'. filter_plugins lower q s = Inr s' \<and> plugins s' = plugins s)
       \<and> (\<exists>s'. handle lower ev s = Inr s' \<and> plugins s' = plugins s
                \<and> \<not> filtered_is_plugins s')
       \<and> (\<forall>p\<in>set (plugins s).
             searchable_text lower p = Inr (field_text lower search_fields p))
       \<and> (\<forall>p f. p f = None \<longrightarrow> dict_get p f = JStr [])
       \<and> (\<forall>p k f. map_of key_map k = Some f \<and> p f = None
                \<longrightarrow> get_sort_value lower k p = lower [])
       \<and> (\<forall>p i. i < length column_fields \<and> p (column_fields ! i) = None
                \<longrightarrow> row_of p ! i = JStr [])"
proof -
  have a: "\<exists>s'. filter_plugins lower q s = Inr s' \<and> plugins s' = plugins s"
    using assms(1)
    by (auto simp: filter_plugins_def filter_engine_char sort_plugins_dataset)
  have b: "\<exists>s'. handle lower ev s = Inr s' \<and> plugins s' = plugins s
                \<and> \<not> filtered_is_plugins s'"
    by (rule handle_total [OF assms])
  have c: "\<forall>p\<in>set (plugins s).
             searchable_text lower p = Inr (field_text lower search_fields p)"
    using assms(1) by (simp add: searchable_text_wf list_all_iff)
  have d: "\<forall>p f. p f = None \<longrightarrow> dict_get p f = JStr []"
    by (simp add: dict_get_def)
  have e: "\<forall>p k f. map_of key_map k = Some f \<and> p f = None
                \<longrightarrow> get_sort_value lower k p = lower []"
    by (simp add: get_sort_value_def key_map_get_def dict_get_def)
  have f: "\<forall>p i. i < length column_fields \<and> p (column_fields ! i) = None
                \<longrightarrow> row_of p ! i = JStr []"
    by (simp add: row_of_map dict_get_def)
  show ?thesis using a b c d e f by blast
qed

theorem operations_total_on_well_formed_witness:
  "list_all wf_plugin (plugins mounted) \<and> \<not> filtered_is_plugins mounted
   \<and> (\<exists>s'. filter_plugins ascii_lower (U ''y'') mounted = Inr s'
            \<and> plugins s' = plugins mounted)
   \<and> beta (U ''Description'') = None
   \<and> dict_get beta (U ''Description'') = JStr []
   \<and> get_sort_value ascii_lower (U ''description'') beta = []"
proof -
  have h: "list_all wf_plugin (plugins mounted)" by (simp add: mounted_fields wf_samples)
  have i: "\<not> filtered_is_plugins mounted" by (simp add: mounted_fields)
  have k: "map_of key_map (U ''description'') = Some (U ''Description'')"
    by (simp add: key_map_def)
  have m: "beta (U ''Description'') = None" by (simp add: beta_def)
  note t = operations_total_on_well_formed
      [where lower = ascii_lower and q = "U ''y''" and ev = ClearSearch, OF h i]
  have g: "get_sort_value ascii_lower (U ''description'') beta = []"
    using t k m by (metis ascii_lower_Nil)
  show ?thesis using t h i m g by blast
qed

end
